theory Spec2Isabelle
  imports Main "HOL-Library.Sublist"
begin

section \<open>Flight extraction pipeline of \<open>flight_search_automation.py\<close>\<close>

text \<open>
  The theory embeds the class \<open>FlightScraper\<close>: the five field extractors, the mock
  catalogue \<open>MOCK_FLIGHTS\<close>, the selector loop \<open>_extract_flights_from_dom\<close>, the
  browser session \<open>_scrape_real_flights\<close> and the entry point \<open>search_flights\<close>.

  A Python \<open>str\<close> is a sequence of Unicode code points and is modelled as the list
  of their numbers, as \<open>ord\<close> gives them; \<open>u\<close> turns an ASCII literal into such a list. The patterns are
  \<open>str\<close> patterns, so \<open>\d\<close> matches every decimal digit of Unicode (category Nd) and
  \<open>\s\<close> every character for which \<open>str.isspace\<close> holds; both tables are those of
  Unicode 14.0, the database of CPython 3.11. The class \<open>[A-Z]\<close> is the 26 ASCII
  letters.
\<close>

subsection \<open>Characters\<close>

type_synonym str = "int list"

definition u :: "string \<Rightarrow> str" where
  "u s = map of_char s"

abbreviation hyphen :: int where "hyphen \<equiv> 0x2D"
abbreviation colon :: int where "colon \<equiv> 0x3A"
abbreviation comma :: int where "comma \<equiv> 0x2C"

definition is_upper :: "int \<Rightarrow> bool" where
  "is_upper c \<longleftrightarrow> 0x41 \<le> c \<and> c \<le> 0x5A"

text \<open>
  The decimal digits of Unicode come in runs of ten, zero to nine; \<open>digit_zeros\<close> lists
  the zero of each of the 66 runs.
\<close>

definition digit_zeros :: "int list" where
  "digit_zeros =
     [0x30, 0x660, 0x6F0, 0x7C0, 0x966, 0x9E6, 0xA66, 0xAE6,
      0xB66, 0xBE6, 0xC66, 0xCE6, 0xD66, 0xDE6, 0xE50, 0xED0,
      0xF20, 0x1040, 0x1090, 0x17E0, 0x1810, 0x1946, 0x19D0, 0x1A80,
      0x1A90, 0x1B50, 0x1BB0, 0x1C40, 0x1C50, 0xA620, 0xA8D0, 0xA900,
      0xA9D0, 0xA9F0, 0xAA50, 0xABF0, 0xFF10, 0x104A0, 0x10D30, 0x11066,
      0x110F0, 0x11136, 0x111D0, 0x112F0, 0x11450, 0x114D0, 0x11650, 0x116C0,
      0x11730, 0x118E0, 0x11950, 0x11C50, 0x11D50, 0x11DA0, 0x16A60, 0x16AC0,
      0x16B50, 0x1D7CE, 0x1D7D8, 0x1D7E2, 0x1D7EC, 0x1D7F6, 0x1E140, 0x1E2F0,
      0x1E950, 0x1FBF0]"

definition is_digit :: "int \<Rightarrow> bool" where
  "is_digit c \<longleftrightarrow> list_ex (\<lambda>zero. zero \<le> c \<and> c < zero + 10) digit_zeros"

definition spaces :: "int list" where
  "spaces =
     [0x9, 0xA, 0xB, 0xC, 0xD, 0x1C, 0x1D, 0x1E,
      0x1F, 0x20, 0x85, 0xA0, 0x1680, 0x2000, 0x2001, 0x2002,
      0x2003, 0x2004, 0x2005, 0x2006, 0x2007, 0x2008, 0x2009, 0x200A,
      0x2028, 0x2029, 0x202F, 0x205F, 0x3000]"

definition is_space :: "int \<Rightarrow> bool" where
  "is_space c \<longleftrightarrow> c \<in> set spaces"

text \<open>
  \<open>str.lower\<close>. The letters \<open>A\<close> to \<open>Z\<close> go to \<open>a\<close> to \<open>z\<close>. Outside ASCII exactly two
  characters have ASCII in their lower case: U+0130 goes to \<open>i\<close> followed by U+0307, and
  U+212A goes to \<open>k\<close>. Every other character goes to one or more characters outside
  ASCII; the model leaves it in place, which changes no test of an ASCII string against
  the lowered text.
\<close>

definition lower_char :: "int \<Rightarrow> str" where
  "lower_char c =
     (if is_upper c then [c + 0x20]
      else if c = 0x130 then [0x69, 0x307]
      else if c = 0x212A then [0x6B]
      else [c])"

definition lower :: "str \<Rightarrow> str" where
  "lower s = concat (map lower_char s)"

definition rupee :: str where
  "rupee = [0x20B9]"

definition NA :: str where
  "NA = u ''N/A''"

subsection \<open>Substring test (the operator \<open>in\<close> on strings)\<close>

fun starts_with :: "str \<Rightarrow> str \<Rightarrow> bool" where
  "starts_with [] s = True"
| "starts_with (p # ps) [] = False"
| "starts_with (p # ps) (c # cs) = (p = c \<and> starts_with ps cs)"

fun contains :: "str \<Rightarrow> str \<Rightarrow> bool" where
  "contains p [] = starts_with p []"
| "contains p (c # cs) = (starts_with p (c # cs) \<or> contains p cs)"

subsection \<open>Airline\<close>

definition airlines :: "str list" where
  "airlines =
     [u ''IndiGo'', u ''Air India'', u ''SpiceJet'', u ''GoAir'', u ''Vistara'', u ''AirAsia'']"

fun first_airline :: "str list \<Rightarrow> str \<Rightarrow> str" where
  "first_airline [] text = NA"
| "first_airline (airline # rest) text =
     (if contains (lower airline) (lower text) then airline else first_airline rest text)"

definition extract_airline :: "str \<Rightarrow> str" where
  "extract_airline text = first_airline airlines text"

text \<open>
  The claim's wording, independent of the loop: a name occurs case-insensitively in a text
  when the lowered name is a contiguous part of the lowered text.
\<close>

definition occurs_ci :: "str \<Rightarrow> str \<Rightarrow> bool" where
  "occurs_ci name text \<longleftrightarrow> (\<exists>before after. lower text = before @ lower name @ after)"

subsection \<open>Flight number: \<open>([A-Z]{2})\s*[-]?\s*(\d{3,4})\<close>\<close>

text \<open>
  One attempt of the pattern at the start of a string. The three classes (blank, hyphen,
  digit) are disjoint, so the greedy choices are the only ones that can succeed: all
  blanks, the hyphen when present, all blanks again, then four digits when there are
  four and three otherwise.
\<close>

definition skip_hyphen :: "str \<Rightarrow> str" where
  "skip_hyphen s = (case s of [] \<Rightarrow> [] | c # cs \<Rightarrow> if c = hyphen then cs else c # cs)"

fun match_flight_number :: "str \<Rightarrow> (str \<times> str) option" where
  "match_flight_number (a # b # rest) =
     (if is_upper a \<and> is_upper b then
        (let digits = takeWhile is_digit
               (take 4 (dropWhile is_space (skip_hyphen (dropWhile is_space rest))))
         in if 3 \<le> length digits then Some ([a, b], digits) else None)
      else None)"
| "match_flight_number s = None"

fun search_flight_number :: "str \<Rightarrow> (str \<times> str) option" where
  "search_flight_number [] = None"
| "search_flight_number (c # cs) =
     (case match_flight_number (c # cs) of
        Some m \<Rightarrow> Some m
      | None \<Rightarrow> search_flight_number cs)"

definition extract_flight_number :: "str \<Rightarrow> str" where
  "extract_flight_number text =
     (case search_flight_number text of
        Some (letters, digits) \<Rightarrow> letters @ [hyphen] @ digits
      | None \<Rightarrow> NA)"

subsection \<open>Price: the rupee sign, \<open>\s*\<close>, then \<open>([\d,]+)\<close>\<close>

definition is_price_char :: "int \<Rightarrow> bool" where
  "is_price_char c \<longleftrightarrow> is_digit c \<or> c = comma"

definition match_price :: "str \<Rightarrow> str option" where
  "match_price s =
     (if starts_with rupee s then
        (let amount = takeWhile is_price_char (dropWhile is_space (drop (length rupee) s))
         in if amount = [] then None else Some amount)
      else None)"

fun search_price :: "str \<Rightarrow> str option" where
  "search_price [] = None"
| "search_price (c # cs) =
     (case match_price (c # cs) of
        Some m \<Rightarrow> Some m
      | None \<Rightarrow> search_price cs)"

definition extract_price :: "str \<Rightarrow> str" where
  "extract_price text =
     (case search_price text of
        Some amount \<Rightarrow> rupee @ amount
      | None \<Rightarrow> NA)"

subsection \<open>Times: \<open>(\d{1,2}):(\d{2})\<close>\<close>

text \<open>
  \<open>colon_minutes\<close> is the tail \<open>:(\d{2})\<close> of the pattern and returns the minutes and
  what follows the match. \<open>match_time\<close> tries the hour greedily with two digits and then,
  as the regex engine backtracks, with one.
\<close>

fun colon_minutes :: "str \<Rightarrow> (str \<times> str) option" where
  "colon_minutes (c # m1 # m2 # rest) =
     (if c = colon \<and> is_digit m1 \<and> is_digit m2 then Some ([m1, m2], rest) else None)"
| "colon_minutes s = None"

definition hour_with :: "nat \<Rightarrow> str \<Rightarrow> (str \<times> str \<times> str) option" where
  "hour_with n s =
     (if n \<le> length s \<and> list_all is_digit (take n s) then
        (case colon_minutes (drop n s) of
           Some (minutes, rest) \<Rightarrow> Some (take n s, minutes, rest)
         | None \<Rightarrow> None)
      else None)"

definition match_time :: "str \<Rightarrow> (str \<times> str \<times> str) option" where
  "match_time s =
     (case hour_with 2 s of
        Some m \<Rightarrow> Some m
      | None \<Rightarrow> hour_with 1 s)"

fun search_time :: "str \<Rightarrow> (str \<times> str) option" where
  "search_time [] = None"
| "search_time (c # cs) =
     (case match_time (c # cs) of
        Some (hour, minutes, rest) \<Rightarrow> Some (hour, minutes)
      | None \<Rightarrow> search_time cs)"

lemma colon_minutes_shorter:
  "colon_minutes s = Some (minutes, rest) \<Longrightarrow> length rest < length s"
  by (induction s rule: colon_minutes.induct) (auto split: if_splits)

lemma match_time_shorter:
  "match_time s = Some (hour, minutes, rest) \<Longrightarrow> length rest < length s"
  by (auto simp: match_time_def hour_with_def split: option.splits if_splits
      dest!: colon_minutes_shorter)

text \<open>\<open>re.findall\<close>: after a match the scan goes on behind it.\<close>

function findall_time :: "str \<Rightarrow> (str \<times> str) list" where
  "findall_time [] = []"
| "findall_time (c # cs) =
     (case match_time (c # cs) of
        Some (hour, minutes, rest) \<Rightarrow> (hour, minutes) # findall_time rest
      | None \<Rightarrow> findall_time cs)"
  by pat_completeness auto
termination
  by (relation "measure length") (auto dest: match_time_shorter)

definition render_time :: "str \<times> str \<Rightarrow> str" where
  "render_time m = fst m @ [colon] @ snd m"

definition extract_departure :: "str \<Rightarrow> str" where
  "extract_departure text =
     (case search_time text of
        Some m \<Rightarrow> render_time m
      | None \<Rightarrow> NA)"

definition extract_arrival :: "str \<Rightarrow> str" where
  "extract_arrival text =
     (let matches = findall_time text
      in if 2 \<le> length matches then render_time (matches ! 1) else NA)"

subsection \<open>Records\<close>

text \<open>
  A template of the mock catalogue has the five fare fields; a flight record, as both the
  page extraction and the catalogue lookup return it, adds the two echoed search inputs
  and the time stamp.
\<close>

record fare =
  airline :: str
  flight_number :: str
  departure :: str
  arrival :: str
  price :: str

record flight = fare +
  origin :: str
  destination :: str
  searchdatetime :: str

subsection \<open>The mock catalogue\<close>

definition bangalore_delhi :: "fare list" where
  "bangalore_delhi =
    [
     \<lparr>airline = u ''IndiGo'', flight_number = u ''6E-123'', departure = u ''06:30'',
      arrival = u ''09:10'', price = rupee @ u ''5,450''\<rparr>,
     \<lparr>airline = u ''Air India'', flight_number = u ''AI-504'', departure = u ''07:15'',
      arrival = u ''09:55'', price = rupee @ u ''6,120''\<rparr>,
     \<lparr>airline = u ''SpiceJet'', flight_number = u ''SG-8256'', departure = u ''08:45'',
      arrival = u ''11:25'', price = rupee @ u ''4,890''\<rparr>,
     \<lparr>airline = u ''GoAir'', flight_number = u ''G8-456'', departure = u ''09:20'',
      arrival = u ''12:00'', price = rupee @ u ''5,100''\<rparr>,
     \<lparr>airline = u ''Vistara'', flight_number = u ''UK-834'', departure = u ''10:00'',
      arrival = u ''12:40'', price = rupee @ u ''7,200''\<rparr>,
     \<lparr>airline = u ''AirAsia'', flight_number = u ''I5-234'', departure = u ''12:15'',
      arrival = u ''14:55'', price = rupee @ u ''3,450''\<rparr>,
     \<lparr>airline = u ''IndiGo'', flight_number = u ''6E-567'', departure = u ''14:30'',
      arrival = u ''17:10'', price = rupee @ u ''5,890''\<rparr>,
     \<lparr>airline = u ''Air India'', flight_number = u ''AI-608'', departure = u ''16:00'',
      arrival = u ''18:40'', price = rupee @ u ''6,450''\<rparr>,
     \<lparr>airline = u ''SpiceJet'', flight_number = u ''SG-8890'', departure = u ''17:45'',
      arrival = u ''20:25'', price = rupee @ u ''5,200''\<rparr>,
     \<lparr>airline = u ''IndiGo'', flight_number = u ''6E-901'', departure = u ''19:15'',
      arrival = u ''21:55'', price = rupee @ u ''6,100''\<rparr>
    ]"

definition MOCK_FLIGHTS :: "str \<times> str \<rightharpoonup> fare list" where
  "MOCK_FLIGHTS = [(u ''Bangalore'', u ''Delhi'') \<mapsto> bangalore_delhi]"

definition stamp :: "str \<Rightarrow> str \<Rightarrow> str \<Rightarrow> fare \<Rightarrow> flight" where
  "stamp org dst now f =
     \<lparr>airline = airline f, flight_number = flight_number f, departure = departure f,
      arrival = arrival f, price = price f,
      origin = org, destination = dst, searchdatetime = now\<rparr>"

text \<open>\<open>now\<close> is what \<open>datetime.utcnow().isoformat() + "Z"\<close> gives, read once per call.\<close>

definition get_mock_flights :: "str \<Rightarrow> str \<Rightarrow> str \<Rightarrow> flight list" where
  "get_mock_flights now org dst =
     (let mock_data = (case MOCK_FLIGHTS (org, dst) of None \<Rightarrow> [] | Some fs \<Rightarrow> fs)
      in map (stamp org dst now) mock_data)"

subsection \<open>The rendered page\<close>

text \<open>
  What is raised carries its message and is of one of two kinds: an instance of
  \<open>Exception\<close>, as the errors and timeouts of Playwright are, or an instance of
  \<open>BaseException\<close> only, as \<open>asyncio.CancelledError\<close> raised at an \<open>await\<close> and
  \<open>KeyboardInterrupt\<close> are. A bare \<open>except\<close> catches both kinds, \<open>except Exception\<close>
  the first only.

  An element is known to the pipeline only through \<open>inner_text()\<close>, which returns the
  text or raises; a page answers \<open>locator(selector).all()\<close> with the matching elements or
  raises.
\<close>

datatype error = Exception str | BaseException str

type_synonym element = "error + str"

type_synonym page = "str \<Rightarrow> error + element list"

definition selectors :: "str list" where
  "selectors =
     [u ''div[class*='flight']'', u ''div[class*='result']'', u ''.flight-card'',
      u ''.result-item'', u ''[data-testid*='flight']'']"

subsection \<open>Extraction from the page\<close>

definition build_flight :: "str \<Rightarrow> str \<Rightarrow> str \<Rightarrow> str \<Rightarrow> flight" where
  "build_flight org dst now text =
     \<lparr>airline = extract_airline text, flight_number = extract_flight_number text,
      departure = extract_departure text, arrival = extract_arrival text,
      price = extract_price text,
      origin = org, destination = dst, searchdatetime = now\<rparr>"

definition retained :: "flight \<Rightarrow> bool" where
  "retained f \<longleftrightarrow> departure f \<noteq> NA \<or> price f \<noteq> NA"

text \<open>
  The inner loop over \<open>elements[:15]\<close>. The list \<open>flights\<close> is appended to in place, so
  when \<open>inner_text()\<close> raises the records appended so far stay in it: the loop returns
  the list together with the exception, if any.
\<close>

fun process_elements ::
  "str \<Rightarrow> str \<Rightarrow> str \<Rightarrow> element list \<Rightarrow> flight list \<Rightarrow> flight list \<times> error option"
where
  "process_elements org dst now [] flights = (flights, None)"
| "process_elements org dst now (elem # rest) flights =
     (case elem of
        Inl e \<Rightarrow> (flights, Some e)
      | Inr text \<Rightarrow>
          (let f = build_flight org dst now text
           in process_elements org dst now rest
                (if retained f then flights @ [f] else flights)))"

text \<open>
  One round of the outer loop, for one selector: the updated list \<open>flights\<close>, and whether
  the round ended in \<open>return flights\<close>. The bare \<open>except\<close> turns every exception of the
  round, of either kind, into \<open>continue\<close>.
\<close>

definition try_selector ::
  "page \<Rightarrow> str \<Rightarrow> str \<Rightarrow> str \<Rightarrow> str \<Rightarrow> flight list \<Rightarrow> flight list \<times> bool"
where
  "try_selector pg org dst now selector flights =
     (case pg selector of
        Inl e \<Rightarrow> (flights, False)
      | Inr elements \<Rightarrow>
          if elements \<noteq> [] then
            (case process_elements org dst now (take 15 elements) flights of
               (flights', Some e) \<Rightarrow> (flights', False)
             | (flights', None) \<Rightarrow> (flights', flights' \<noteq> []))
          else (flights, False))"

text \<open>
  The outer loop. Besides the result it returns the selectors passed to \<open>page.locator\<close>,
  in the order of the calls.
\<close>

fun scan_selectors ::
  "page \<Rightarrow> str \<Rightarrow> str \<Rightarrow> str \<Rightarrow> str list \<Rightarrow> flight list \<Rightarrow> str list
   \<Rightarrow> flight list \<times> str list"
where
  "scan_selectors pg org dst now [] flights queried = ([], queried)"
| "scan_selectors pg org dst now (selector # rest) flights queried =
     (case try_selector pg org dst now selector flights of
        (flights', True) \<Rightarrow> (flights', queried @ [selector])
      | (flights', False) \<Rightarrow> scan_selectors pg org dst now rest flights' (queried @ [selector]))"

definition extract_flights_from_dom ::
  "page \<Rightarrow> str \<Rightarrow> str \<Rightarrow> str \<Rightarrow> flight list \<times> str list"
where
  "extract_flights_from_dom pg now org dst = scan_selectors pg org dst now selectors [] []"

subsection \<open>The browser session and the search\<close>

text \<open>
  What one search meets outside the program: whether launching the browser, loading the
  site and filling the form raise, the page that is then scanned, whether closing the
  browser raises, and what the clock shows in \<open>_extract_flights_from_dom\<close> and in
  \<open>_get_mock_flights\<close>.
\<close>

record engine =
  initialize :: "error option"
  goto :: "error option"
  fill_form :: "error option"
  results_page :: page
  close :: "error option"
  now_scan :: str
  now_mock :: str

text \<open>The body of the \<open>try\<close> in \<open>_scrape_real_flights\<close>.\<close>

definition scrape_body :: "engine \<Rightarrow> str \<Rightarrow> str \<Rightarrow> str \<Rightarrow> error + flight list" where
  "scrape_body eng org dst journey_date =
     (case initialize eng of
        Some e \<Rightarrow> Inl e
      | None \<Rightarrow>
     (case goto eng of
        Some e \<Rightarrow> Inl e
      | None \<Rightarrow>
     (case fill_form eng of
        Some e \<Rightarrow> Inl e
      | None \<Rightarrow>
         (let flights = fst (extract_flights_from_dom (results_page eng) (now_scan eng) org dst)
          in if flights \<noteq> [] \<and> 0 < length flights then Inr flights else Inr []))))"

text \<open>\<open>finally: await self.close()\<close>: an exception of \<open>close\<close> replaces the outcome.\<close>

definition scrape_real_flights :: "engine \<Rightarrow> str \<Rightarrow> str \<Rightarrow> str \<Rightarrow> error + flight list" where
  "scrape_real_flights eng org dst journey_date =
     (let outcome = scrape_body eng org dst journey_date
      in case close eng of Some e \<Rightarrow> Inl e | None \<Rightarrow> outcome)"

text \<open>
  The body of the \<open>try\<close> in \<open>search_flights\<close>, and the handler \<open>except Exception\<close>
  around it, which lets an exception of the second kind pass.
\<close>

definition search_body ::
  "bool \<Rightarrow> engine \<Rightarrow> str \<Rightarrow> str \<Rightarrow> str \<Rightarrow> error + flight list"
where
  "search_body use_mock eng org dst journey_date =
     (if \<not> use_mock then
        (case scrape_real_flights eng org dst journey_date of
           Inl e \<Rightarrow> Inl e
         | Inr flights \<Rightarrow>
             if flights \<noteq> [] then Inr flights
             else Inr (get_mock_flights (now_mock eng) org dst))
      else Inr (get_mock_flights (now_mock eng) org dst))"

definition search_flights ::
  "bool \<Rightarrow> engine \<Rightarrow> str \<Rightarrow> str \<Rightarrow> str \<Rightarrow> error + flight list"
where
  "search_flights use_mock eng org dst journey_date =
     (case search_body use_mock eng org dst journey_date of
        Inl (Exception msg) \<Rightarrow> Inr (get_mock_flights (now_mock eng) org dst)
      | Inl (BaseException msg) \<Rightarrow> Inl (BaseException msg)
      | Inr flights \<Rightarrow> Inr flights)"

subsection \<open>Matches of the flight-number pattern\<close>



subsection \<open>Shapes of a time string\<close>

text \<open>
  The specification's wording of a time of day: two digits of hour from \<open>00\<close> to \<open>23\<close>, a
  colon, two digits of minute from \<open>00\<close> to \<open>59\<close>.
\<close>

definition ascii_digit :: "int \<Rightarrow> bool" where
  "ascii_digit c \<longleftrightarrow> 0x30 \<le> c \<and> c \<le> 0x39"

definition valid_hhmm :: "str \<Rightarrow> bool" where
  "valid_hhmm s =
     (case s of
        [h1, h2, c, m1, m2] \<Rightarrow>
          ascii_digit h1 \<and> ascii_digit h2 \<and> 10 * (h1 - 0x30) + (h2 - 0x30) \<le> 23
          \<and> c = colon
          \<and> ascii_digit m1 \<and> ascii_digit m2 \<and> 10 * (m1 - 0x30) + (m2 - 0x30) \<le> 59
      | _ \<Rightarrow> False)"

text \<open>
  The pattern as a set of strings: one or two decimal digits, a colon, two decimal digits,
  a decimal digit being any character that \<open>\d\<close> matches.
\<close>

definition time_shape :: "str \<Rightarrow> bool" where
  "time_shape s =
     (case s of
        [h, c, m1, m2] \<Rightarrow> is_digit h \<and> c = colon \<and> is_digit m1 \<and> is_digit m2
      | [h1, h2, c, m1, m2] \<Rightarrow>
          is_digit h1 \<and> is_digit h2 \<and> c = colon \<and> is_digit m1 \<and> is_digit m2
      | _ \<Rightarrow> False)"

subsection \<open>Occurrences of the time pattern in a text\<close>

text \<open>
  Stated without the matcher. A string starts with a time when one of its prefixes has
  the shape of the pattern. The occurrences of the pattern in a text, from left to right
  and without overlap: there is none when no position of the text starts with a time;
  otherwise the first one is the time at the leftmost position that starts with one, and
  the others are the occurrences in what follows it.
\<close>

definition starts_time :: "str \<Rightarrow> bool" where
  "starts_time s \<longleftrightarrow> (\<exists>w. time_shape w \<and> prefix w s)"

inductive occurrences :: "str \<Rightarrow> str list \<Rightarrow> bool" where
  none: "(\<And>i. \<not> starts_time (drop i s)) \<Longrightarrow> occurrences s []"
| more: "time_shape w \<Longrightarrow> (\<And>i. i < length gap \<Longrightarrow> \<not> starts_time (drop i (gap @ w @ rest)))
         \<Longrightarrow> occurrences rest ws \<Longrightarrow> occurrences (gap @ w @ rest) (w # ws)"

subsection \<open>When a selector ends the search\<close>

text \<open>
  Stated without the loop. The texts of a selector's elements are read in order until one
  cannot be read; \<open>kept_from\<close> is the list of retained records of the texts read among the
  first fifteen elements. A selector completes when it finds at least one element and all
  of its first fifteen can be read. \<open>held\<close> is the list of retained records after a run of
  selectors, each adding what is kept from it. The selector at position \<open>k\<close> ends the
  search when it completes and the list held after the selectors up to it is not empty.
\<close>

definition readable :: "element \<Rightarrow> bool" where
  "readable elem = (case elem of Inl e \<Rightarrow> False | Inr text \<Rightarrow> True)"

fun read_texts :: "element list \<Rightarrow> str list" where
  "read_texts [] = []"
| "read_texts (Inl e # rest) = []"
| "read_texts (Inr text # rest) = text # read_texts rest"

definition kept_from :: "page \<Rightarrow> str \<Rightarrow> str \<Rightarrow> str \<Rightarrow> str \<Rightarrow> flight list" where
  "kept_from pg org dst now selector =
     (case pg selector of
        Inl e \<Rightarrow> []
      | Inr elements \<Rightarrow>
          filter retained (map (build_flight org dst now) (read_texts (take 15 elements))))"

definition completes :: "page \<Rightarrow> str \<Rightarrow> bool" where
  "completes pg selector =
     (case pg selector of
        Inl e \<Rightarrow> False
      | Inr elements \<Rightarrow> elements \<noteq> [] \<and> list_all readable (take 15 elements))"

definition held :: "page \<Rightarrow> str \<Rightarrow> str \<Rightarrow> str \<Rightarrow> str list \<Rightarrow> flight list" where
  "held pg org dst now sels = concat (map (kept_from pg org dst now) sels)"

definition ends_search :: "page \<Rightarrow> str \<Rightarrow> str \<Rightarrow> str \<Rightarrow> nat \<Rightarrow> bool" where
  "ends_search pg org dst now k \<longleftrightarrow>
     completes pg (selectors ! k) \<and> held pg org dst now (take (Suc k) selectors) \<noteq> []"

subsection \<open>Sample pages and engines\<close>

text \<open>Concrete inputs on which the properties below are exercised.\<close>

definition demo_page :: page where
  "demo_page selector =
     (if selector = u ''.flight-card''
      then Inr [Inr (u ''IndiGo AI-504 nonstop''), Inr (u ''SpiceJet SG-8256 08:45'')]
      else Inr [])"

definition loading_page :: page where
  "loading_page selector =
     (if selector = selectors ! 0 then Inr [Inr (u ''Loading results...'')]
      else if selector = selectors ! 1
        then Inr [Inr (u ''Sort by price''), Inr (u ''IndiGo 06:30 '' @ rupee @ u ''5,450'')]
      else if selector = selectors ! 2 then Inr [Inr (u ''SpiceJet 08:45'')]
      else Inr [])"

text \<open>
  On \<open>carry_page\<close> the first selector gives one record and then an element that cannot
  be read, the second raises, the third finds nothing, and the fourth finds one element
  with no time and no price.
\<close>

definition carry_page :: page where
  "carry_page selector =
     (if selector = selectors ! 0
        then Inr [Inr (u ''IndiGo 06:30''), Inl (Exception (u ''Element is not attached''))]
      else if selector = selectors ! 1 then Inl (Exception (u ''Timeout 30000ms exceeded''))
      else if selector = selectors ! 2 then Inr []
      else if selector = selectors ! 3 then Inr [Inr (u ''Sort by price'')]
      else Inr [Inr (u ''SpiceJet 08:45'')])"

text \<open>On \<open>flaky_page\<close> the first selector raises and the second finds a flight.\<close>

definition flaky_page :: page where
  "flaky_page selector =
     (if selector = selectors ! 0 then Inl (Exception (u ''Timeout 30000ms exceeded''))
      else if selector = selectors ! 1 then Inr [Inr (u ''SpiceJet 08:45'')]
      else Inr [])"

definition empty_page :: page where
  "empty_page selector = Inr []"

definition healthy :: "page \<Rightarrow> engine" where
  "healthy pg =
     \<lparr>initialize = None, goto = None, fill_form = None, results_page = pg, close = None,
      now_scan = u ''2025-10-20T08:00:00.000001Z'', now_mock = u ''2025-10-20T08:00:07.500000Z''\<rparr>"

definition unreachable :: engine where
  "unreachable = (healthy empty_page)\<lparr>goto := Some (Exception (u ''net::ERR_NAME_NOT_RESOLVED''))\<rparr>"

definition cancelled :: engine where
  "cancelled = (healthy empty_page)\<lparr>goto := Some (BaseException (u ''CancelledError''))\<rparr>"

text \<open>
  What the steps of the browser session outside the selector loop raise, and whether an
  exception is an instance of \<open>Exception\<close>, which the handler of \<open>search_flights\<close>
  catches.
\<close>

definition session_errors :: "engine \<Rightarrow> error list" where
  "session_errors eng =
     concat (map (\<lambda>step. case step of None \<Rightarrow> [] | Some e \<Rightarrow> [e])
       [initialize eng, goto eng, fill_form eng, close eng])"

definition is_exception :: "error \<Rightarrow> bool" where
  "is_exception e = (case e of Exception msg \<Rightarrow> True | BaseException msg \<Rightarrow> False)"

text \<open>The seven fields of a record other than its time stamp.\<close>

definition content :: "flight \<Rightarrow> str \<times> str \<times> str \<times> str \<times> str \<times> str \<times> str" where
  "content f = (airline f, flight_number f, departure f, arrival f, price f, origin f, destination f)"

section \<open>Properties\<close>

subsection \<open>The substring test\<close>

lemma starts_with_iff: "starts_with p s \<longleftrightarrow> (\<exists>after. s = p @ after)"
  by (induction p s rule: starts_with.induct) auto

lemma contains_iff: "contains p s \<longleftrightarrow> (\<exists>before after. s = before @ p @ after)"
proof (induction s)
  case Nil
  then show ?case by (cases p) auto
next
  case (Cons c cs)
  show ?case
  proof
    assume "contains p (c # cs)"
    then consider "starts_with p (c # cs)" | "contains p cs" by auto
    then show "\<exists>before after. c # cs = before @ p @ after"
    proof cases
      case 1
      then obtain after where "c # cs = p @ after" by (auto simp: starts_with_iff)
      then have "c # cs = [] @ p @ after" by simp
      then show ?thesis by blast
    next
      case 2
      then obtain before after where "cs = before @ p @ after" using Cons.IH by blast
      then have "c # cs = (c # before) @ p @ after" by simp
      then show ?thesis by blast
    qed
  next
    assume "\<exists>before after. c # cs = before @ p @ after"
    then obtain before after where e: "c # cs = before @ p @ after" by blast
    show "contains p (c # cs)"
    proof (cases before)
      case Nil
      with e have "starts_with p (c # cs)" by (auto simp: starts_with_iff)
      then show ?thesis by simp
    next
      case (Cons b bs)
      with e have "cs = bs @ p @ after" by simp
      then have "contains p cs" using Cons.IH by blast
      then show ?thesis by simp
    qed
  qed
qed

lemma contains_lower_iff: "contains (lower name) (lower text) \<longleftrightarrow> occurs_ci name text"
  by (simp add: contains_iff occurs_ci_def)

lemma first_airline_none:
  "(\<forall>a \<in> set xs. \<not> occurs_ci a text) \<Longrightarrow> first_airline xs text = NA"
  by (induction xs) (auto simp: contains_lower_iff)

lemma first_airline_in: "first_airline xs text \<in> set xs \<union> {NA}"
  by (induction xs) auto

lemma first_airline_hit:
  "first_airline xs text \<noteq> NA \<Longrightarrow> occurs_ci (first_airline xs text) text"
  by (induction xs) (auto simp: contains_lower_iff split: if_splits)

lemma first_airline_index:
  "i < length xs \<Longrightarrow> occurs_ci (xs ! i) text \<Longrightarrow> (\<forall>j<i. \<not> occurs_ci (xs ! j) text)
   \<Longrightarrow> first_airline xs text = xs ! i"
proof (induction xs arbitrary: i)
  case Nil
  then show ?case by simp
next
  case (Cons x xs)
  show ?case
  proof (cases i)
    case 0
    with Cons.prems show ?thesis by (simp add: contains_lower_iff)
  next
    case (Suc k)
    with Cons.prems have "\<not> occurs_ci x text" by auto
    moreover have "first_airline xs text = xs ! k"
      using Cons.prems Suc by (intro Cons.IH) auto
    ultimately show ?thesis using Suc by (simp add: contains_lower_iff)
  qed
qed

lemma NA_not_airline: "NA \<notin> set airlines"
  by code_simp

subsection \<open>Airline\<close>

text \<open>
  C8. For every text the airline extractor returns one of the six carrier names or
  \<open>N/A\<close>; it returns \<open>N/A\<close> exactly when no carrier name occurs case-insensitively in the
  text; and when the carrier at position \<open>i\<close> of the list occurs and no carrier at an
  earlier position does, it returns the carrier at position \<open>i\<close>.
\<close>

theorem extract_airline_first_match:
  "extract_airline text \<in> set airlines \<union> {NA}
   \<and> (extract_airline text = NA \<longleftrightarrow> (\<forall>a \<in> set airlines. \<not> occurs_ci a text))
   \<and> (\<forall>i < length airlines.
        occurs_ci (airlines ! i) text \<and> (\<forall>j < i. \<not> occurs_ci (airlines ! j) text)
        \<longrightarrow> extract_airline text = airlines ! i)"
proof (intro conjI allI impI)
  show "extract_airline text \<in> set airlines \<union> {NA}"
    unfolding extract_airline_def by (rule first_airline_in)
next
  show "extract_airline text = NA \<longleftrightarrow> (\<forall>a \<in> set airlines. \<not> occurs_ci a text)"
  proof
    assume na: "extract_airline text = NA"
    show "\<forall>a \<in> set airlines. \<not> occurs_ci a text"
    proof (rule ccontr)
      assume "\<not> (\<forall>a \<in> set airlines. \<not> occurs_ci a text)"
      then have "\<exists>i. i < length airlines \<and> occurs_ci (airlines ! i) text"
        by (auto simp: in_set_conv_nth)
      then obtain i where i: "i < length airlines" "occurs_ci (airlines ! i) text"
        and least: "\<forall>j<i. \<not> (j < length airlines \<and> occurs_ci (airlines ! j) text)"
        using exists_least_iff [of "\<lambda>i. i < length airlines \<and> occurs_ci (airlines ! i) text"]
        by blast
      from least i(1) have "\<forall>j<i. \<not> occurs_ci (airlines ! j) text" by auto
      with i have "first_airline airlines text = airlines ! i"
        by (intro first_airline_index) auto
      with na i(1) NA_not_airline show False
        unfolding extract_airline_def by (metis nth_mem)
    qed
  next
    assume "\<forall>a \<in> set airlines. \<not> occurs_ci a text"
    then show "extract_airline text = NA"
      unfolding extract_airline_def by (rule first_airline_none)
  qed
next
  fix i
  assume "i < length airlines"
    and "occurs_ci (airlines ! i) text \<and> (\<forall>j < i. \<not> occurs_ci (airlines ! j) text)"
  then show "extract_airline text = airlines ! i"
    unfolding extract_airline_def by (intro first_airline_index) auto
qed


theorem extract_airline_first_match_witness:
  "occurs_ci (u ''IndiGo'') (u ''Operated by AIR INDIA for indigo'')
   \<and> occurs_ci (u ''Air India'') (u ''Operated by AIR INDIA for indigo'')
   \<and> extract_airline (u ''Operated by AIR INDIA for indigo'') = (u ''IndiGo'')
   \<and> \<not> occurs_ci (u ''AirAsia'') (u ''Lufthansa LH 760'')
   \<and> extract_airline (u ''Lufthansa LH 760'') = NA"
proof -
  let ?t = "(u ''Operated by AIR INDIA for indigo'')"
  have len: "0 < length airlines" by (simp add: airlines_def)
  have hd: "airlines ! 0 = (u ''IndiGo'')" by (simp add: airlines_def)
  have occ: "occurs_ci (u ''IndiGo'') ?t"
    unfolding contains_lower_iff [symmetric] by code_simp
  have occ2: "occurs_ci (u ''Air India'') ?t"
    unfolding contains_lower_iff [symmetric] by code_simp
  have r: "extract_airline ?t = (u ''IndiGo'')"
    using extract_airline_first_match [of ?t] len hd occ by auto
  have none: "\<forall>a \<in> set airlines. \<not> occurs_ci a (u ''Lufthansa LH 760'')"
    unfolding contains_lower_iff [symmetric]
    by code_simp
  have r2: "extract_airline (u ''Lufthansa LH 760'') = NA"
    using extract_airline_first_match [of "(u ''Lufthansa LH 760'')"] none by blast
  have no_asia: "\<not> occurs_ci (u ''AirAsia'') (u ''Lufthansa LH 760'')"
    using none by (simp add: airlines_def)
  show ?thesis using occ occ2 r no_asia r2 by blast
qed

subsection \<open>The mock catalogue\<close>

text \<open>
  C10. The mock catalogue has exactly one key, the pair \<open>("Bangalore", "Delhi")\<close>; for
  every other pair of origin and destination, the reversed route and differently cased
  spellings included, the fallback lookup returns the empty list.
\<close>

theorem mock_catalogue_single_route:
  "dom MOCK_FLIGHTS = {(u ''Bangalore'', (u ''Delhi''))}
   \<and> ((org, dst) \<noteq> (u ''Bangalore'', (u ''Delhi'')) \<longrightarrow> get_mock_flights now org dst = [])"
  by (auto simp: MOCK_FLIGHTS_def get_mock_flights_def split: if_splits)

theorem mock_catalogue_single_route_witness:
  "get_mock_flights (u ''2025-10-25T00:00:00Z'') (u ''Delhi'') (u ''Bangalore'') = []
   \<and> get_mock_flights (u ''2025-10-25T00:00:00Z'') (u ''bangalore'') (u ''delhi'') = []
   \<and> get_mock_flights (u ''2025-10-25T00:00:00Z'') (u ''Bangalore'') (u ''Mumbai'') = []"
proof -
  have a: "(u ''Delhi'', u ''Bangalore'') \<noteq> (u ''Bangalore'', u ''Delhi'')" by code_simp
  have b: "(u ''bangalore'', u ''delhi'') \<noteq> (u ''Bangalore'', u ''Delhi'')" by code_simp
  have c: "(u ''Bangalore'', u ''Mumbai'') \<noteq> (u ''Bangalore'', u ''Delhi'')" by code_simp
  show ?thesis
    using a b c
      mock_catalogue_single_route [of "u ''Delhi''" "u ''Bangalore''" "u ''2025-10-25T00:00:00Z''"]
      mock_catalogue_single_route [of "u ''bangalore''" "u ''delhi''" "u ''2025-10-25T00:00:00Z''"]
      mock_catalogue_single_route [of "u ''Bangalore''" "u ''Mumbai''" "u ''2025-10-25T00:00:00Z''"]
    by blast
qed

subsection \<open>Retention\<close>

lemma process_elements_retained:
  "list_all retained flights \<Longrightarrow>
   list_all retained (fst (process_elements org dst now elems flights))"
  by (induction elems arbitrary: flights) (auto simp: Let_def split: sum.splits)

lemma process_elements_retained_pair:
  "process_elements org dst now elems flights = (flights', r) \<Longrightarrow> list_all retained flights
   \<Longrightarrow> list_all retained flights'"
  using process_elements_retained [of flights org dst now elems] by simp

lemma try_selector_retained:
  "list_all retained flights \<Longrightarrow>
   list_all retained (fst (try_selector pg org dst now selector flights))"
  by (auto simp: try_selector_def split: sum.splits prod.splits option.splits
      dest: process_elements_retained_pair)

lemma scan_selectors_retained:
  "list_all retained flights \<Longrightarrow>
   list_all retained (fst (scan_selectors pg org dst now sels flights queried))"
proof (induction sels arbitrary: flights queried)
  case Nil
  then show ?case by simp
next
  case (Cons selector rest)
  obtain flights' stop where t: "try_selector pg org dst now selector flights = (flights', stop)"
    by (cases "try_selector pg org dst now selector flights")
  with try_selector_retained [OF Cons.prems, of pg org dst now selector]
  have r: "list_all retained flights'" by simp
  show ?case
  proof (cases stop)
    case True
    with t r show ?thesis by simp
  next
    case False
    with t Cons.IH [OF r] show ?thesis by simp
  qed
qed

lemma extract_flights_retained:
  "list_all retained (fst (extract_flights_from_dom pg now org dst))"
  unfolding extract_flights_from_dom_def by (rule scan_selectors_retained) simp

lemma scrape_body_retained:
  "scrape_body eng org dst d = Inr flights \<Longrightarrow> list_all retained flights"
  using extract_flights_retained [of "results_page eng" "now_scan eng" org dst]
  by (auto simp: scrape_body_def Let_def split: option.splits if_splits)

lemma scrape_real_flights_retained:
  "scrape_real_flights eng org dst d = Inr flights \<Longrightarrow> list_all retained flights"
  by (auto simp: scrape_real_flights_def Let_def split: option.splits dest: scrape_body_retained)

lemma demo_extract:
  "fst (extract_flights_from_dom demo_page (u ''T'') (u ''Pune'') (u ''Goa''))
   = [build_flight (u ''Pune'') (u ''Goa'') (u ''T'') (u ''SpiceJet SG-8256 08:45'')]"
  by code_simp

lemma demo_fields:
  "airline (build_flight (u ''Pune'') (u ''Goa'') (u ''T'') (u ''IndiGo AI-504 nonstop'')) = (u ''IndiGo'')"
  "flight_number (build_flight (u ''Pune'') (u ''Goa'') (u ''T'') (u ''IndiGo AI-504 nonstop'')) = (u ''AI-504'')"
  "departure (build_flight (u ''Pune'') (u ''Goa'') (u ''T'') (u ''IndiGo AI-504 nonstop'')) = NA"
  "price (build_flight (u ''Pune'') (u ''Goa'') (u ''T'') (u ''IndiGo AI-504 nonstop'')) = NA"
  "departure (build_flight (u ''Pune'') (u ''Goa'') (u ''T'') (u ''SpiceJet SG-8256 08:45'')) = (u ''08:45'')"
  by code_simp+

text \<open>
  C4. Every record that the page extraction returns, and so every record that the real
  scraping phase returns, has a departure other than \<open>N/A\<close> or a price other than
  \<open>N/A\<close>: a record with both fields \<open>N/A\<close> is never in the output, whatever its airline
  and flight number.
\<close>

theorem extracted_records_have_time_or_price:
  "(\<forall>f \<in> set (fst (extract_flights_from_dom pg now org dst)).
      departure f \<noteq> NA \<or> price f \<noteq> NA)
   \<and> (scrape_real_flights eng org dst journey_date = Inr flights \<longrightarrow>
        (\<forall>f \<in> set flights. \<not> (departure f = NA \<and> price f = NA)))"
  using extract_flights_retained [of pg now org dst] scrape_real_flights_retained [of eng org dst journey_date flights]
  by (auto simp: list_all_iff retained_def)

theorem extracted_records_have_time_or_price_witness:
  "fst (extract_flights_from_dom demo_page (u ''T'') (u ''Pune'') (u ''Goa''))
   = [build_flight (u ''Pune'') (u ''Goa'') (u ''T'') (u ''SpiceJet SG-8256 08:45'')]
   \<and> retained (build_flight (u ''Pune'') (u ''Goa'') (u ''T'') (u ''SpiceJet SG-8256 08:45''))
   \<and> airline (build_flight (u ''Pune'') (u ''Goa'') (u ''T'') (u ''IndiGo AI-504 nonstop'')) = (u ''IndiGo'')
   \<and> flight_number (build_flight (u ''Pune'') (u ''Goa'') (u ''T'') (u ''IndiGo AI-504 nonstop'')) = (u ''AI-504'')
   \<and> departure (build_flight (u ''Pune'') (u ''Goa'') (u ''T'') (u ''IndiGo AI-504 nonstop'')) = NA
   \<and> price (build_flight (u ''Pune'') (u ''Goa'') (u ''T'') (u ''IndiGo AI-504 nonstop'')) = NA"
proof -
  have e: "fst (extract_flights_from_dom demo_page (u ''T'') (u ''Pune'') (u ''Goa''))
           = [build_flight (u ''Pune'') (u ''Goa'') (u ''T'') (u ''SpiceJet SG-8256 08:45'')]"
    by (rule demo_extract)
  have "retained (build_flight (u ''Pune'') (u ''Goa'') (u ''T'') (u ''SpiceJet SG-8256 08:45''))"
    using extracted_records_have_time_or_price [of demo_page "(u ''T'')" "(u ''Pune'')" "(u ''Goa'')"] e
    by (simp add: retained_def)
  with e demo_fields show ?thesis by simp
qed


subsection \<open>Fallback for Bangalore to Delhi\<close>

lemma scan_selectors_no_candidates:
  "list_all (\<lambda>sel. pg sel = Inr []) sels \<Longrightarrow>
   scan_selectors pg org dst now sels flights queried = ([], queried @ sels)"
  by (induction sels arbitrary: queried) (auto simp: try_selector_def)

lemma extract_no_candidates:
  "list_all (\<lambda>sel. pg sel = Inr []) selectors \<Longrightarrow>
   extract_flights_from_dom pg now org dst = ([], selectors)"
  by (simp add: extract_flights_from_dom_def scan_selectors_no_candidates)

lemma scrape_no_candidates:
  "list_all (\<lambda>sel. results_page eng sel = Inr []) selectors \<Longrightarrow>
   scrape_real_flights eng org dst d \<noteq> Inr (f # fs)"
  by (auto simp: scrape_real_flights_def scrape_body_def extract_no_candidates Let_def
      split: option.splits)

lemma scrape_raises_session_error:
  "scrape_real_flights eng org dst d = Inl e \<Longrightarrow> e \<in> set (session_errors eng)"
  by (auto simp: scrape_real_flights_def scrape_body_def session_errors_def Let_def
      split: option.splits if_splits)

lemma search_falls_back:
  assumes "\<And>f fs. scrape_real_flights eng org dst d \<noteq> Inr (f # fs)"
    and "list_all is_exception (session_errors eng)"
  shows "search_flights use_mock eng org dst d = Inr (get_mock_flights (now_mock eng) org dst)"
proof (cases "scrape_real_flights eng org dst d")
  case (Inl e)
  then have "e \<in> set (session_errors eng)" by (rule scrape_raises_session_error)
  with assms(2) have "is_exception e" by (simp add: list_all_iff)
  then obtain msg where "e = Exception msg" by (cases e) (simp_all add: is_exception_def)
  with Inl show ?thesis by (simp add: search_flights_def search_body_def)
next
  case (Inr flights)
  with assms(1) have "flights = []" by (cases flights) auto
  with Inr show ?thesis by (simp add: search_flights_def search_body_def)
qed

lemma truncate_stamp: "fare.truncate (stamp org dst now f) = f"
  by (cases f) (simp add: stamp_def fare.truncate_def)

lemma stamp_echo:
  "origin (stamp org dst now f) = org"
  "destination (stamp org dst now f) = dst"
  "searchdatetime (stamp org dst now f) = now"
  by (simp_all add: stamp_def)

lemma map_stamp_fields:
  "map (fare.truncate \<circ> stamp org dst now) fs = fs"
  "map (origin \<circ> stamp org dst now) fs = replicate (length fs) org"
  "map (destination \<circ> stamp org dst now) fs = replicate (length fs) dst"
  "map (searchdatetime \<circ> stamp org dst now) fs = replicate (length fs) now"
  by (simp_all add: comp_def truncate_stamp stamp_echo map_replicate_const)

text \<open>
  C5. When no selector finds an element on the results page, the search for
  \<open>("Bangalore", "Delhi", "2025-10-25")\<close> returns ten records whose fare fields are the
  ten templates of the catalogue in catalogue order, each with origin \<open>Bangalore\<close>,
  destination \<open>Delhi\<close> and the one time stamp read in the lookup.
\<close>

theorem bangalore_delhi_fallback:
  assumes "\<forall>sel \<in> set selectors. results_page eng sel = Inr []"
    and "list_all is_exception (session_errors eng)"
  shows "\<exists>flights.
           search_flights use_mock eng (u ''Bangalore'') (u ''Delhi'') (u ''2025-10-25'') = Inr flights
           \<and> length flights = 10
           \<and> MOCK_FLIGHTS (u ''Bangalore'', (u ''Delhi'')) = Some (map fare.truncate flights)
           \<and> map origin flights = replicate 10 (u ''Bangalore'')
           \<and> map destination flights = replicate 10 (u ''Delhi'')
           \<and> map searchdatetime flights = replicate 10 (now_mock eng)"
proof -
  let ?flights = "map (stamp (u ''Bangalore'') (u ''Delhi'') (now_mock eng)) bangalore_delhi"
  from assms(1) have "list_all (\<lambda>sel. results_page eng sel = Inr []) selectors"
    by (simp add: list_all_iff)
  then have "\<And>f fs. scrape_real_flights eng (u ''Bangalore'') (u ''Delhi'') (u ''2025-10-25'') \<noteq> Inr (f # fs)"
    by (rule scrape_no_candidates)
  then have "search_flights use_mock eng (u ''Bangalore'') (u ''Delhi'') (u ''2025-10-25'')
             = Inr (get_mock_flights (now_mock eng) (u ''Bangalore'') (u ''Delhi''))"
    using assms(2) by (rule search_falls_back)
  moreover have "get_mock_flights (now_mock eng) (u ''Bangalore'') (u ''Delhi'') = ?flights"
    by (simp add: get_mock_flights_def MOCK_FLIGHTS_def)
  ultimately have s: "search_flights use_mock eng (u ''Bangalore'') (u ''Delhi'') (u ''2025-10-25'') = Inr ?flights"
    by simp
  have n: "length bangalore_delhi = 10" by (simp add: bangalore_delhi_def)
  have m: "MOCK_FLIGHTS (u ''Bangalore'', (u ''Delhi'')) = Some bangalore_delhi"
    by (simp add: MOCK_FLIGHTS_def)
  show ?thesis
    using s n m by (intro exI [of _ ?flights]) (simp add: map_stamp_fields)
qed

theorem bangalore_delhi_fallback_witness:
  "results_page (healthy empty_page) (u ''.flight-card'') = Inr []
   \<and> (\<exists>flights.
         search_flights False (healthy empty_page) (u ''Bangalore'') (u ''Delhi'') (u ''2025-10-25'')
         = Inr flights
         \<and> length flights = 10
         \<and> map searchdatetime flights = replicate 10 (u ''2025-10-20T08:00:07.500000Z''))"
proof -
  have h: "\<forall>sel \<in> set selectors. results_page (healthy empty_page) sel = Inr []"
    by (simp add: healthy_def empty_page_def)
  have e: "list_all is_exception (session_errors (healthy empty_page))"
    by (simp add: session_errors_def healthy_def)
  have t: "now_mock (healthy empty_page) = (u ''2025-10-20T08:00:07.500000Z'')"
    by (simp add: healthy_def)
  show ?thesis
    using bangalore_delhi_fallback [OF h e, of False] t
    by (auto simp: healthy_def empty_page_def)
qed


subsection \<open>Determinism of record assembly\<close>

lemma process_elements_texts:
  "process_elements org dst now (map Inr texts) flights
   = (flights @ filter retained (map (build_flight org dst now) texts), None)"
  by (induction texts arbitrary: flights) (auto simp: Let_def)

lemma retained_build: "retained (build_flight org dst now1 t) = retained (build_flight org dst now2 t)"
  by (simp add: retained_def build_flight_def)

lemma content_build: "content (build_flight org dst now1 t) = content (build_flight org dst now2 t)"
  by (simp add: content_def build_flight_def)

lemma content_filter:
  "map content (filter retained (map (build_flight org dst now1) texts))
   = map content (filter retained (map (build_flight org dst now2) texts))"
  by (induction texts) (auto simp: retained_build [of org dst now1 _ now2] content_build [of org dst now1 _ now2])

text \<open>
  C9. Record assembly over captured element texts never fails, and two runs over the same
  texts with the same origin and destination give lists of records that agree in every
  field but the time stamp, which in each run is that run's clock reading.
\<close>

theorem assembly_deterministic:
  "snd (process_elements org dst now1 (map Inr texts) []) = None
   \<and> map content (fst (process_elements org dst now1 (map Inr texts) []))
     = map content (fst (process_elements org dst now2 (map Inr texts) []))
   \<and> map searchdatetime (fst (process_elements org dst now1 (map Inr texts) []))
     = replicate (length (fst (process_elements org dst now1 (map Inr texts) []))) now1"
  apply (simp add: process_elements_texts content_filter [of org dst now1 texts now2])
  apply (induction texts)
  apply (auto simp: build_flight_def)
  done

subsection \<open>Times\<close>

lemma colon_not_digit: "\<not> is_digit colon"
  by code_simp

lemma colon_minutes_Some:
  "colon_minutes s = Some (minutes, rest) \<Longrightarrow>
   s = [colon] @ minutes @ rest \<and> length minutes = 2 \<and> list_all is_digit minutes"
  by (induction s rule: colon_minutes.induct) (auto split: if_splits)

lemma hour_with_Some:
  "hour_with n s = Some (hour, minutes, rest) \<Longrightarrow>
   s = hour @ [colon] @ minutes @ rest \<and> length hour = n \<and> list_all is_digit hour
   \<and> length minutes = 2 \<and> list_all is_digit minutes"
proof -
  assume a: "hour_with n s = Some (hour, minutes, rest)"
  then have n: "n \<le> length s" and d: "list_all is_digit (take n s)"
    and c: "colon_minutes (drop n s) = Some (minutes, rest)" and h: "hour = take n s"
    by (auto simp: hour_with_def split: if_splits option.splits)
  from colon_minutes_Some [OF c] have "drop n s = [colon] @ minutes @ rest"
    and m: "length minutes = 2" "list_all is_digit minutes" by auto
  then have "s = take n s @ [colon] @ minutes @ rest"
    by (metis append_take_drop_id)
  with n d h m show ?thesis by simp
qed

lemma match_time_Some:
  "match_time s = Some (hour, minutes, rest) \<Longrightarrow>
   s = render_time (hour, minutes) @ rest \<and> (length hour = 1 \<or> length hour = 2)
   \<and> list_all is_digit hour \<and> length minutes = 2 \<and> list_all is_digit minutes"
  by (auto simp: match_time_def render_time_def split: option.splits dest!: hour_with_Some)

lemma time_shape_render:
  assumes "length hour = 1 \<or> length hour = 2" "list_all is_digit hour"
    "length minutes = 2" "list_all is_digit minutes"
  shows "time_shape (render_time (hour, minutes))"
proof -
  from assms(3) obtain m1 m2 where m: "minutes = [m1, m2]"
    by (cases minutes; cases "tl minutes"; cases "tl (tl minutes)") auto
  from assms(1) consider h where "hour = [h]" | h1 h2 where "hour = [h1, h2]"
    by (cases hour; cases "tl hour"; cases "tl (tl hour)") auto
  then show ?thesis
    using assms(2,4) m by cases (auto simp: time_shape_def render_time_def)
qed

lemma match_time_shape:
  "match_time s = Some (hour, minutes, rest) \<Longrightarrow> time_shape (render_time (hour, minutes))"
  by (drule match_time_Some) (auto intro: time_shape_render)

lemma time_shape_cases:
  assumes "time_shape w"
  obtains h m1 m2 where "w = [h, colon, m1, m2]" "is_digit h" "is_digit m1" "is_digit m2"
  | h1 h2 m1 m2 where "w = [h1, h2, colon, m1, m2]" "is_digit h1" "is_digit h2"
      "is_digit m1" "is_digit m2"
  using assms by (auto simp: time_shape_def split: list.splits)

lemma match_time_complete:
  assumes "time_shape w"
  shows "\<exists>hour minutes. w = render_time (hour, minutes)
           \<and> match_time (w @ rest) = Some (hour, minutes, rest)"
  using assms
proof (cases rule: time_shape_cases)
  case (1 h m1 m2)
  then have "match_time (w @ rest) = Some ([h], [m1, m2], rest)"
    by (simp add: match_time_def hour_with_def colon_not_digit)
  with 1 show ?thesis by (auto simp: render_time_def)
next
  case (2 h1 h2 m1 m2)
  then have "match_time (w @ rest) = Some ([h1, h2], [m1, m2], rest)"
    by (simp add: match_time_def hour_with_def)
  with 2 show ?thesis by (auto simp: render_time_def)
qed

lemma match_time_None_iff: "match_time s = None \<longleftrightarrow> \<not> starts_time s"
proof
  assume n: "match_time s = None"
  show "\<not> starts_time s"
  proof
    assume "starts_time s"
    then obtain w rest where "time_shape w" "s = w @ rest"
      by (auto simp: starts_time_def prefix_def)
    with match_time_complete [of w rest] n show False by auto
  qed
next
  assume ns: "\<not> starts_time s"
  show "match_time s = None"
  proof (rule ccontr)
    assume "match_time s \<noteq> None"
    then obtain hour minutes rest where m: "match_time s = Some (hour, minutes, rest)"
      by auto
    from match_time_Some [OF m] match_time_shape [OF m]
    have "starts_time s" by (auto simp: starts_time_def prefix_def)
    with ns show False by simp
  qed
qed

lemma time_shape_not_Nil: "time_shape w \<Longrightarrow> w \<noteq> []"
  by (auto simp: time_shape_def)

lemma search_time_findall:
  "search_time s = (case findall_time s of [] \<Rightarrow> None | m # ms \<Rightarrow> Some m)"
  by (induction s rule: findall_time.induct) (auto split: option.splits)

lemma findall_time_sound:
  "m \<in> set (findall_time s) \<Longrightarrow> time_shape (render_time m) \<and> sublist (render_time m) s"
proof (induction s arbitrary: m rule: findall_time.induct)
  case 1
  then show ?case by simp
next
  case (2 c cs)
  show ?case
  proof (cases "match_time (c # cs)")
    case None
    with "2.prems" have "m \<in> set (findall_time cs)" by simp
    with "2.IH"(1) [OF None] have "time_shape (render_time m)" "sublist (render_time m) cs"
      by auto
    then show ?thesis by (auto simp: sublist_Cons_right)
  next
    case (Some t)
    obtain hour minutes rest where t: "t = (hour, minutes, rest)" by (cases t)
    from match_time_Some Some t
    have eq: "c # cs = render_time (hour, minutes) @ rest" by blast
    from "2.prems" Some t consider "m = (hour, minutes)" | "m \<in> set (findall_time rest)"
      by auto
    then show ?thesis
    proof cases
      case 1
      with match_time_shape Some t eq show ?thesis
        by (metis sublist_append_rightI)
    next
      case 2
      have "time_shape (render_time m) \<and> sublist (render_time m) rest"
        by (rule "2.IH"(2) [OF Some t [symmetric] refl 2])
      then have "time_shape (render_time m)" "sublist (render_time m) rest" by auto
      then show ?thesis using eq by (metis sublist_append_leftI sublist_order.order_trans)
    qed
  qed
qed

lemma findall_time_step:
  assumes "time_shape w"
  shows "\<exists>m. render_time m = w \<and> findall_time (w @ rest) = m # findall_time rest"
proof -
  from match_time_complete [OF assms, of rest] obtain hour minutes where
    m: "w = render_time (hour, minutes)" "match_time (w @ rest) = Some (hour, minutes, rest)"
    by blast
  from assms obtain c cs where "w @ rest = c # cs"
    by (cases w) (auto dest: time_shape_not_Nil)
  with m show ?thesis by (intro exI [of _ "(hour, minutes)"]) simp
qed

lemma findall_time_gap:
  "(\<And>i. i < length gap \<Longrightarrow> \<not> starts_time (drop i (gap @ s))) \<Longrightarrow>
   findall_time (gap @ s) = findall_time s"
proof (induction gap)
  case Nil
  then show ?case by simp
next
  case (Cons g gs)
  from Cons.prems [of 0] have "match_time (g # gs @ s) = None"
    by (simp add: match_time_None_iff)
  moreover have "findall_time (gs @ s) = findall_time s"
  proof (rule Cons.IH)
    fix i assume "i < length gs"
    with Cons.prems [of "Suc i"] show "\<not> starts_time (drop i (gs @ s))" by simp
  qed
  ultimately show ?case by simp
qed

lemma findall_time_none:
  "(\<And>i. \<not> starts_time (drop i s)) \<Longrightarrow> findall_time s = []"
  using findall_time_gap [of s "[]"] by simp

lemma occurrences_unique:
  "occurrences s ws \<Longrightarrow> map render_time (findall_time s) = ws"
proof (induction rule: occurrences.induct)
  case (none s)
  then show ?case by (simp add: findall_time_none)
next
  case (more w gap rest ws)
  have "findall_time (gap @ w @ rest) = findall_time (w @ rest)"
    using more.hyps(2) by (rule findall_time_gap)
  moreover from findall_time_step [OF more.hyps(1), of rest] obtain m where
    "render_time m = w" "findall_time (w @ rest) = m # findall_time rest" by blast
  ultimately show ?case using more.IH by simp
qed

lemma occurrences_Cons:
  assumes "occurrences cs ws" "\<not> starts_time (c # cs)"
  shows "occurrences (c # cs) ws"
  using assms(1)
proof (cases rule: occurrences.cases)
  case none
  have "\<And>i. \<not> starts_time (drop i (c # cs))"
  proof -
    fix i show "\<not> starts_time (drop i (c # cs))"
      using none(2) [of "i - 1"] assms(2) by (cases i) auto
  qed
  with none(1) show ?thesis by (auto intro: occurrences.none)
next
  case (more w gap rest ws')
  have "occurrences ((c # gap) @ w @ rest) (w # ws')"
  proof (rule occurrences.more [OF more(3) _ more(5)])
    fix i assume "i < length (c # gap)"
    then show "\<not> starts_time (drop i ((c # gap) @ w @ rest))"
      using more(4) [of "i - 1"] assms(2) more(1) by (cases i) auto
  qed
  with more(1,2) show ?thesis by simp
qed

lemma occurrences_exist: "occurrences s (map render_time (findall_time s))"
proof (induction s rule: findall_time.induct)
  case 1
  have "\<And>i. \<not> starts_time (drop i [])"
    by (auto simp: starts_time_def dest: time_shape_not_Nil)
  then have "occurrences [] []" by (rule occurrences.none)
  then show ?case by simp
next
  case (2 c cs)
  show ?case
  proof (cases "match_time (c # cs)")
    case None
    then have "\<not> starts_time (c # cs)" by (simp add: match_time_None_iff)
    with "2.IH"(1) [OF None] None show ?thesis by (simp add: occurrences_Cons)
  next
    case (Some t)
    obtain hour minutes rest where t: "t = (hour, minutes, rest)" by (cases t)
    from match_time_Some Some t
    have eq: "c # cs = render_time (hour, minutes) @ rest" by blast
    have sh: "time_shape (render_time (hour, minutes))"
      using match_time_shape Some t by blast
    have "occurrences rest (map render_time (findall_time rest))"
      by (rule "2.IH"(2) [OF Some t [symmetric] refl])
    with sh have "occurrences ([] @ render_time (hour, minutes) @ rest)
        (render_time (hour, minutes) # map render_time (findall_time rest))"
      by (intro occurrences.more) simp_all
    with eq have "occurrences (c # cs)
        (render_time (hour, minutes) # map render_time (findall_time rest))"
      by simp
    moreover have "findall_time (c # cs) = (hour, minutes) # findall_time rest"
      using Some t by simp
    ultimately show ?thesis by (simp only: list.map)
  qed
qed

text \<open>
  C6. Every text has a list of occurrences of the time pattern. When it has exactly one,
  the departure is that occurrence and the arrival is \<open>N/A\<close>; when it has two or more,
  the departure is the first and the arrival is the second, each exactly as it stands in
  the text.
\<close>

theorem time_extractors_follow_occurrences:
  "(\<exists>ws. occurrences text ws)
   \<and> (occurrences text [w] \<longrightarrow> extract_departure text = w \<and> extract_arrival text = NA)
   \<and> (occurrences text (w1 # w2 # ws) \<longrightarrow>
        extract_departure text = w1 \<and> extract_arrival text = w2)"
proof (intro conjI impI)
  show "\<exists>ws. occurrences text ws" using occurrences_exist by blast
next
  assume "occurrences text [w]"
  then have "map render_time (findall_time text) = [w]" by (rule occurrences_unique)
  then obtain m where "findall_time text = [m]" "render_time m = w" by auto
  then show "extract_departure text = w" and "extract_arrival text = NA"
    by (simp_all add: extract_departure_def extract_arrival_def search_time_findall)
next
  assume "occurrences text (w1 # w2 # ws)"
  then have "map render_time (findall_time text) = w1 # w2 # ws" by (rule occurrences_unique)
  then obtain m1 m2 ms where "findall_time text = m1 # m2 # ms" "render_time m1 = w1"
    "render_time m2 = w2" by auto
  then show "extract_departure text = w1" and "extract_arrival text = w2"
    by (simp_all add: extract_departure_def extract_arrival_def search_time_findall)
qed

theorem time_extractors_follow_occurrences_witness:
  "occurrences (u ''Departs 7:05 only'') [u ''7:05'']
   \<and> extract_departure (u ''Departs 7:05 only'') = u ''7:05''
   \<and> extract_arrival (u ''Departs 7:05 only'') = NA
   \<and> occurrences (u ''Dep 06:30 Arr 09:10 (2h 40m)'') [u ''06:30'', u ''09:10'']
   \<and> extract_departure (u ''Dep 06:30 Arr 09:10 (2h 40m)'') = u ''06:30''
   \<and> extract_arrival (u ''Dep 06:30 Arr 09:10 (2h 40m)'') = u ''09:10''
   \<and> occurrences ([0x966, 0x96C, colon, 0x969, 0x966] @ u '' 09:10'')
        [[0x966, 0x96C, colon, 0x969, 0x966], u ''09:10'']
   \<and> extract_departure ([0x966, 0x96C, colon, 0x969, 0x966] @ u '' 09:10'')
      = [0x966, 0x96C, colon, 0x969, 0x966]
   \<and> extract_arrival ([0x966, 0x96C, colon, 0x969, 0x966] @ u '' 09:10'') = u ''09:10''"
proof -
  have "map render_time (findall_time (u ''Departs 7:05 only'')) = [u ''7:05'']"
    by code_simp
  with occurrences_exist [of "u ''Departs 7:05 only''"]
  have one: "occurrences (u ''Departs 7:05 only'') [u ''7:05'']" by simp
  have "map render_time (findall_time (u ''Dep 06:30 Arr 09:10 (2h 40m)''))
        = [u ''06:30'', u ''09:10'']"
    by code_simp
  with occurrences_exist [of "u ''Dep 06:30 Arr 09:10 (2h 40m)''"]
  have two: "occurrences (u ''Dep 06:30 Arr 09:10 (2h 40m)'') [u ''06:30'', u ''09:10'']"
    by simp
  have "map render_time (findall_time ([0x966, 0x96C, colon, 0x969, 0x966] @ u '' 09:10''))
        = [[0x966, 0x96C, colon, 0x969, 0x966], u ''09:10'']"
    by code_simp
  with occurrences_exist [of "[0x966, 0x96C, colon, 0x969, 0x966] @ u '' 09:10''"]
  have deva: "occurrences ([0x966, 0x96C, colon, 0x969, 0x966] @ u '' 09:10'')
        [[0x966, 0x96C, colon, 0x969, 0x966], u ''09:10'']" by simp
  show ?thesis
    using one two deva
      time_extractors_follow_occurrences [of "u ''Departs 7:05 only''" "u ''7:05''"]
      time_extractors_follow_occurrences [of "u ''Dep 06:30 Arr 09:10 (2h 40m)''" _
        "u ''06:30''" "u ''09:10''" "[]"]
      time_extractors_follow_occurrences [of "[0x966, 0x96C, colon, 0x969, 0x966] @ u '' 09:10''" _
        "[0x966, 0x96C, colon, 0x969, 0x966]" "u ''09:10''" "[]"]
    by blast
qed

text \<open>
  C7, as stated, fails: the pattern checks no range, so an hour above 23, a minute above
  59 and a one-digit hour are all returned as found.
\<close>

theorem times_not_range_checked_counterexample:
  "\<not> (extract_departure (u ''Gate closes 25:99'') = NA
       \<or> valid_hhmm (extract_departure (u ''Gate closes 25:99'')))
   \<and> \<not> (extract_arrival (u ''06:30 - 9:75 IndiGo'') = NA
       \<or> valid_hhmm (extract_arrival (u ''06:30 - 9:75 IndiGo'')))"
  by code_simp

text \<open>
  C7, amended. For every text each of the two extractors returns \<open>N/A\<close> or a string made
  of one or two decimal digits, a colon and two decimal digits, where a decimal digit is
  any character that \<open>\d\<close> matches, and that string is a contiguous part of the text.
\<close>

theorem times_have_shape:
  "(extract_departure text = NA
      \<or> (time_shape (extract_departure text) \<and> sublist (extract_departure text) text))
   \<and> (extract_arrival text = NA
      \<or> (time_shape (extract_arrival text) \<and> sublist (extract_arrival text) text))"
proof
  show "extract_departure text = NA
      \<or> (time_shape (extract_departure text) \<and> sublist (extract_departure text) text)"
  proof (cases "findall_time text")
    case Nil
    then show ?thesis by (simp add: extract_departure_def search_time_findall)
  next
    case (Cons m ms)
    then have "m \<in> set (findall_time text)" by simp
    then have "time_shape (render_time m) \<and> sublist (render_time m) text"
      by (rule findall_time_sound)
    with Cons show ?thesis by (simp add: extract_departure_def search_time_findall)
  qed
next
  show "extract_arrival text = NA
      \<or> (time_shape (extract_arrival text) \<and> sublist (extract_arrival text) text)"
  proof (cases "2 \<le> length (findall_time text)")
    case True
    then have "findall_time text ! 1 \<in> set (findall_time text)" by simp
    then have "time_shape (render_time (findall_time text ! 1))
        \<and> sublist (render_time (findall_time text ! 1)) text"
      by (rule findall_time_sound)
    with True show ?thesis by (simp add: extract_arrival_def)
  next
    case False
    then show ?thesis by (simp add: extract_arrival_def)
  qed
qed

theorem times_have_shape_witness:
  "extract_departure (u ''Gate closes 25:99'') = u ''25:99''
   \<and> time_shape (u ''25:99'')
   \<and> sublist (u ''25:99'') (u ''Gate closes 25:99'')
   \<and> extract_arrival (u ''Gate closes 25:99'') = NA
   \<and> extract_departure (u ''Dep '' @ [0x966, 0x96C, colon, 0x969, 0x966])
      = [0x966, 0x96C, colon, 0x969, 0x966]
   \<and> time_shape [0x966, 0x96C, colon, 0x969, 0x966]"
proof -
  have d: "extract_departure (u ''Gate closes 25:99'') = u ''25:99''" by code_simp
  have a: "extract_arrival (u ''Gate closes 25:99'') = NA" by code_simp
  have n: "u ''25:99'' \<noteq> NA" by code_simp
  have v: "extract_departure (u ''Dep '' @ [0x966, 0x96C, colon, 0x969, 0x966])
      = [0x966, 0x96C, colon, 0x969, 0x966]" by code_simp
  have vn: "[0x966, 0x96C, colon, 0x969, 0x966] \<noteq> NA" by code_simp
  show ?thesis
    using d a n v vn times_have_shape [of "u ''Gate closes 25:99''"]
      times_have_shape [of "u ''Dep '' @ [0x966, 0x96C, colon, 0x969, 0x966]"]
    by simp
qed

subsection \<open>Flight number\<close>






















text \<open>
  The class \<open>[A-Z]\<close> has no digit, so the pattern does not match a carrier code such as
  \<open>6E\<close>.
\<close>

lemma flight_number_digit_in_code:
  "extract_flight_number (u ''6E 123'') = NA"
  "extract_flight_number (u ''IndiGo 6E-123 06:30'') = NA"
  by code_simp+

subsection \<open>What the search returns and what it raises\<close>

lemma scrape_raises_only_session_errors:
  "session_errors eng = [] \<Longrightarrow> \<exists>flights. scrape_real_flights eng org dst d = Inr flights"
  by (auto simp: scrape_real_flights_def scrape_body_def session_errors_def Let_def
      split: option.splits if_splits)

lemma search_flights_Inl:
  assumes "search_flights use_mock eng org dst d = Inl e"
  shows "\<not> use_mock \<and> \<not> is_exception e \<and> scrape_real_flights eng org dst d = Inl e"
  using assms
  by (auto simp: search_flights_def search_body_def is_exception_def
      split: sum.splits error.splits if_splits)

lemma search_flights_caught:
  assumes "scrape_real_flights eng org dst d = Inl e" "is_exception e"
  shows "search_flights use_mock eng org dst d = Inr (get_mock_flights (now_mock eng) org dst)"
  using assms
  by (cases e) (auto simp: search_flights_def search_body_def is_exception_def)

lemma search_flights_total:
  assumes "list_all is_exception (session_errors eng)"
  shows "\<exists>flights. search_flights use_mock eng org dst d = Inr flights"
proof (cases "search_flights use_mock eng org dst d")
  case (Inl e)
  from search_flights_Inl [OF Inl] have "\<not> is_exception e" "e \<in> set (session_errors eng)"
    by (auto dest: scrape_raises_session_error)
  with assms show ?thesis by (auto simp: list_all_iff)
next
  case (Inr flights)
  then show ?thesis by blast
qed

lemma no_route_chennai_mumbai: "get_mock_flights now (u ''Chennai'') (u ''Mumbai'') = []"
proof -
  have "(u ''Chennai'', u ''Mumbai'') \<noteq> (u ''Bangalore'', u ''Delhi'')" by code_simp
  then show ?thesis by (auto simp: get_mock_flights_def MOCK_FLIGHTS_def)
qed

text \<open>
  C3, as stated, fails twice. An exception that is not an instance of \<open>Exception\<close>,
  raised by a step of the browser session, passes the handler: on \<open>cancelled\<close> the
  search raises. And an exception raised inside the selector loop is swallowed there and
  does not lead to the mock catalogue: on \<open>flaky_page\<close> the first selector raises and the
  search returns the record found by the second, not the ten records of the catalogue.
\<close>

theorem search_flights_never_raises_counterexample:
  "search_flights False cancelled (u ''Chennai'') (u ''Mumbai'') (u ''2025-10-25'')
   = Inl (BaseException (u ''CancelledError''))
   \<and> flaky_page (selectors ! 0) = Inl (Exception (u ''Timeout 30000ms exceeded''))
   \<and> search_flights False (healthy flaky_page) (u ''Bangalore'') (u ''Delhi'') (u ''2025-10-25'')
     = Inr [build_flight (u ''Bangalore'') (u ''Delhi'') (now_scan (healthy flaky_page))
              (u ''SpiceJet 08:45'')]
   \<and> length (get_mock_flights (now_mock (healthy flaky_page)) (u ''Bangalore'') (u ''Delhi''))
     = 10"
proof -
  have a: "search_flights False cancelled (u ''Chennai'') (u ''Mumbai'') (u ''2025-10-25'')
     = Inl (BaseException (u ''CancelledError''))"
    by code_simp
  have b: "flaky_page (selectors ! 0) = Inl (Exception (u ''Timeout 30000ms exceeded''))"
    by code_simp
  have c: "search_flights False (healthy flaky_page) (u ''Bangalore'') (u ''Delhi'')
       (u ''2025-10-25'')
     = Inr [build_flight (u ''Bangalore'') (u ''Delhi'') (now_scan (healthy flaky_page))
              (u ''SpiceJet 08:45'')]"
    by code_simp
  have d: "length (get_mock_flights (now_mock (healthy flaky_page)) (u ''Bangalore'') (u ''Delhi''))
     = 10"
    by (simp add: get_mock_flights_def MOCK_FLIGHTS_def bangalore_delhi_def)
  from a b c d show ?thesis by blast
qed

text \<open>
  C3, amended. The search raises only what a step of the browser session outside the
  selector loop raises and what is not an instance of \<open>Exception\<close>; when every exception
  of those steps is an instance of \<open>Exception\<close>, the search returns a list. When the real
  scraping raises an instance of \<open>Exception\<close>, the search returns the mock catalogue's
  answer for the origin and destination, which for \<open>("Chennai", "Mumbai")\<close> is the empty
  list. When no step of the session raises, the real scraping returns a list, whatever
  the selector queries and the elements raise.
\<close>

theorem search_flights_outcomes:
  "(search_flights use_mock eng org dst journey_date = Inl e \<longrightarrow>
      \<not> use_mock \<and> \<not> is_exception e \<and> e \<in> set (session_errors eng))
   \<and> (list_all is_exception (session_errors eng) \<longrightarrow>
        (\<exists>flights. search_flights use_mock eng org dst journey_date = Inr flights))
   \<and> (scrape_real_flights eng org dst journey_date = Inl e \<and> is_exception e \<longrightarrow>
        search_flights use_mock eng org dst journey_date
        = Inr (get_mock_flights (now_mock eng) org dst))
   \<and> (scrape_real_flights eng (u ''Chennai'') (u ''Mumbai'') journey_date = Inl e
        \<and> is_exception e \<longrightarrow>
        search_flights use_mock eng (u ''Chennai'') (u ''Mumbai'') journey_date = Inr [])
   \<and> (session_errors eng = [] \<longrightarrow>
        (\<exists>flights. scrape_real_flights eng org dst journey_date = Inr flights))"
proof (intro conjI impI)
  assume "search_flights use_mock eng org dst journey_date = Inl e"
  from search_flights_Inl [OF this]
  show "\<not> use_mock" "\<not> is_exception e" "e \<in> set (session_errors eng)"
    by (auto dest: scrape_raises_session_error)
next
  assume "list_all is_exception (session_errors eng)"
  then show "\<exists>flights. search_flights use_mock eng org dst journey_date = Inr flights"
    by (rule search_flights_total)
next
  assume "scrape_real_flights eng org dst journey_date = Inl e \<and> is_exception e"
  then show "search_flights use_mock eng org dst journey_date
        = Inr (get_mock_flights (now_mock eng) org dst)"
    by (auto intro: search_flights_caught)
next
  assume "scrape_real_flights eng (u ''Chennai'') (u ''Mumbai'') journey_date = Inl e
        \<and> is_exception e"
  then have "search_flights use_mock eng (u ''Chennai'') (u ''Mumbai'') journey_date
        = Inr (get_mock_flights (now_mock eng) (u ''Chennai'') (u ''Mumbai''))"
    by (auto intro: search_flights_caught)
  then show "search_flights use_mock eng (u ''Chennai'') (u ''Mumbai'') journey_date = Inr []"
    by (simp add: no_route_chennai_mumbai)
next
  assume "session_errors eng = []"
  then show "\<exists>flights. scrape_real_flights eng org dst journey_date = Inr flights"
    by (rule scrape_raises_only_session_errors)
qed

theorem search_flights_outcomes_witness:
  "scrape_real_flights unreachable (u ''Chennai'') (u ''Mumbai'') (u ''2025-10-25'')
   = Inl (Exception (u ''net::ERR_NAME_NOT_RESOLVED''))
   \<and> is_exception (Exception (u ''net::ERR_NAME_NOT_RESOLVED''))
   \<and> search_flights False unreachable (u ''Chennai'') (u ''Mumbai'') (u ''2025-10-25'') = Inr []
   \<and> session_errors (healthy flaky_page) = []
   \<and> (\<exists>flights. scrape_real_flights (healthy flaky_page) (u ''Chennai'') (u ''Mumbai'')
         (u ''2025-10-25'') = Inr flights)
   \<and> search_flights False cancelled (u ''Chennai'') (u ''Mumbai'') (u ''2025-10-25'')
     = Inl (BaseException (u ''CancelledError''))
   \<and> \<not> is_exception (BaseException (u ''CancelledError''))
   \<and> BaseException (u ''CancelledError'') \<in> set (session_errors cancelled)"
proof -
  have a: "scrape_real_flights unreachable (u ''Chennai'') (u ''Mumbai'') (u ''2025-10-25'')
           = Inl (Exception (u ''net::ERR_NAME_NOT_RESOLVED''))"
    by code_simp
  have b: "is_exception (Exception (u ''net::ERR_NAME_NOT_RESOLVED''))"
    by (simp add: is_exception_def)
  have c: "session_errors (healthy flaky_page) = []"
    by (simp add: session_errors_def healthy_def)
  have d: "search_flights False cancelled (u ''Chennai'') (u ''Mumbai'') (u ''2025-10-25'')
     = Inl (BaseException (u ''CancelledError''))"
    by code_simp
  from search_flights_outcomes [of False unreachable "u ''Chennai''" "u ''Mumbai''"
      "u ''2025-10-25''" "Exception (u ''net::ERR_NAME_NOT_RESOLVED'')"] a b
  have r1: "search_flights False unreachable (u ''Chennai'') (u ''Mumbai'') (u ''2025-10-25'')
      = Inr []"
    by blast
  from search_flights_outcomes [of False "healthy flaky_page" "u ''Chennai''" "u ''Mumbai''"
      "u ''2025-10-25''"] c
  have r2: "\<exists>flights. scrape_real_flights (healthy flaky_page) (u ''Chennai'') (u ''Mumbai'')
         (u ''2025-10-25'') = Inr flights"
    by blast
  from search_flights_outcomes [of False cancelled "u ''Chennai''" "u ''Mumbai''"
      "u ''2025-10-25''" "BaseException (u ''CancelledError'')"] d
  have r3: "\<not> is_exception (BaseException (u ''CancelledError''))
      \<and> BaseException (u ''CancelledError'') \<in> set (session_errors cancelled)"
    by blast
  from a b r1 c r2 d r3 show ?thesis by blast
qed


subsection \<open>The selector loop\<close>

lemma process_elements_read:
  "fst (process_elements org dst now elems flights)
   = flights @ filter retained (map (build_flight org dst now) (read_texts elems))
   \<and> (snd (process_elements org dst now elems flights) = None \<longleftrightarrow> list_all readable elems)"
proof (induction elems arbitrary: flights)
  case Nil
  then show ?case by simp
next
  case (Cons elem rest)
  show ?case
  proof (cases elem)
    case (Inl e)
    then show ?thesis by (simp add: readable_def)
  next
    case (Inr s)
    then show ?thesis
      using Cons.IH [of "flights @ [build_flight org dst now s]"] Cons.IH [of flights]
      by (simp add: Let_def readable_def)
  qed
qed

lemma try_selector_spec:
  "try_selector pg org dst now selector flights
   = (flights @ kept_from pg org dst now selector,
      completes pg selector \<and> flights @ kept_from pg org dst now selector \<noteq> [])"
proof (cases "pg selector")
  case (Inl e)
  then show ?thesis by (simp add: try_selector_def kept_from_def completes_def)
next
  case (Inr elements)
  show ?thesis
  proof (cases "elements = []")
    case True
    with Inr show ?thesis by (simp add: try_selector_def kept_from_def completes_def)
  next
    case False
    obtain fl r where p: "process_elements org dst now (take 15 elements) flights = (fl, r)"
      by (cases "process_elements org dst now (take 15 elements) flights")
    from process_elements_read [of org dst now "take 15 elements" flights] p
    have fl: "fl = flights @ kept_from pg org dst now selector"
      and r: "r = None \<longleftrightarrow> list_all readable (take 15 elements)"
      using Inr by (simp_all add: kept_from_def)
    show ?thesis
    proof (cases r)
      case None
      with Inr False p fl r show ?thesis by (simp add: try_selector_def completes_def)
    next
      case (Some e)
      with Inr False p fl r show ?thesis by (simp add: try_selector_def completes_def)
    qed
  qed
qed

lemma held_Cons:
  "held pg org dst now (selector # sels) = kept_from pg org dst now selector @ held pg org dst now sels"
  by (simp add: held_def)

lemma scan_selectors_exhausted:
  "(\<forall>k < length sels. \<not> (completes pg (sels ! k)
        \<and> flights @ held pg org dst now (take (Suc k) sels) \<noteq> []))
   \<Longrightarrow> scan_selectors pg org dst now sels flights queried = ([], queried @ sels)"
proof (induction sels arbitrary: flights queried)
  case Nil
  then show ?case by simp
next
  case (Cons selector rest)
  from Cons.prems have "\<not> (completes pg ((selector # rest) ! 0)
        \<and> flights @ held pg org dst now (take (Suc 0) (selector # rest)) \<noteq> [])"
    by blast
  then have stop: "\<not> (completes pg selector \<and> flights @ kept_from pg org dst now selector \<noteq> [])"
    by (simp add: held_def)
  have "\<forall>k < length rest. \<not> (completes pg (rest ! k)
        \<and> (flights @ kept_from pg org dst now selector) @ held pg org dst now (take (Suc k) rest) \<noteq> [])"
  proof (intro allI impI)
    fix k assume "k < length rest"
    then have "Suc k < length (selector # rest)" by simp
    with Cons.prems have "\<not> (completes pg ((selector # rest) ! Suc k)
        \<and> flights @ held pg org dst now (take (Suc (Suc k)) (selector # rest)) \<noteq> [])"
      by blast
    then show "\<not> (completes pg (rest ! k)
        \<and> (flights @ kept_from pg org dst now selector) @ held pg org dst now (take (Suc k) rest) \<noteq> [])"
      by (simp add: held_Cons)
  qed
  moreover have "try_selector pg org dst now selector flights
      = (flights @ kept_from pg org dst now selector, False)"
    using stop by (simp add: try_selector_spec)
  ultimately show ?case
    using Cons.IH [of "flights @ kept_from pg org dst now selector" "queried @ [selector]"]
    by simp
qed

lemma scan_selectors_ended:
  "k < length sels \<Longrightarrow>
   completes pg (sels ! k) \<and> flights @ held pg org dst now (take (Suc k) sels) \<noteq> [] \<Longrightarrow>
   (\<forall>j < k. \<not> (completes pg (sels ! j)
        \<and> flights @ held pg org dst now (take (Suc j) sels) \<noteq> [])) \<Longrightarrow>
   scan_selectors pg org dst now sels flights queried
   = (flights @ held pg org dst now (take (Suc k) sels), queried @ take (Suc k) sels)"
proof (induction sels arbitrary: flights queried k)
  case Nil
  then show ?case by simp
next
  case (Cons selector rest)
  show ?case
  proof (cases k)
    case 0
    with Cons.prems(2) show ?thesis by (simp add: try_selector_spec held_def)
  next
    case (Suc k')
    with Cons.prems(3) have "\<not> (completes pg ((selector # rest) ! 0)
        \<and> flights @ held pg org dst now (take (Suc 0) (selector # rest)) \<noteq> [])"
      by blast
    then have stop: "\<not> (completes pg selector \<and> flights @ kept_from pg org dst now selector \<noteq> [])"
      by (simp add: held_def)
    let ?fl = "flights @ kept_from pg org dst now selector"
    have 1: "k' < length rest" using Cons.prems(1) Suc by simp
    have 2: "completes pg (rest ! k') \<and> ?fl @ held pg org dst now (take (Suc k') rest) \<noteq> []"
      using Cons.prems(2) Suc by (simp add: held_Cons)
    have 3: "\<forall>j < k'. \<not> (completes pg (rest ! j)
        \<and> ?fl @ held pg org dst now (take (Suc j) rest) \<noteq> [])"
    proof (intro allI impI)
      fix j assume "j < k'"
      then have "Suc j < k" using Suc by simp
      with Cons.prems(3) have "\<not> (completes pg ((selector # rest) ! Suc j)
          \<and> flights @ held pg org dst now (take (Suc (Suc j)) (selector # rest)) \<noteq> [])"
        by blast
      then show "\<not> (completes pg (rest ! j)
        \<and> ?fl @ held pg org dst now (take (Suc j) rest) \<noteq> [])"
        by (simp add: held_Cons)
    qed
    have "try_selector pg org dst now selector flights = (?fl, False)"
      using stop by (simp add: try_selector_spec)
    with Cons.IH [OF 1 2 3, of "queried @ [selector]"] Suc show ?thesis
      by (simp add: held_Cons)
  qed
qed

text \<open>
  C1, as stated, fails: on \<open>loading_page\<close> the first selector finds an element, no record
  of it passes the retention test, and the second selector is queried all the same.
\<close>

theorem selectors_not_stopped_by_elements_counterexample:
  "loading_page (selectors ! 0) = Inr [Inr (u ''Loading results...'')]
   \<and> snd (extract_flights_from_dom loading_page (u ''T'') (u ''Pune'') (u ''Goa''))
     = [selectors ! 0, selectors ! 1]"
  by code_simp

text \<open>
  C1, amended. The selectors are queried in their order. When the selector at position
  \<open>k\<close> is the first that ends the search, the selectors queried are those up to it and
  the result is the list held after them; when no selector ends the search, all are
  queried and the result is empty.
\<close>

theorem selector_loop_ends:
  "(\<forall>k < length selectors.
      ends_search pg org dst now k \<and> (\<forall>j < k. \<not> ends_search pg org dst now j) \<longrightarrow>
      extract_flights_from_dom pg now org dst
      = (held pg org dst now (take (Suc k) selectors), take (Suc k) selectors))
   \<and> ((\<forall>k < length selectors. \<not> ends_search pg org dst now k) \<longrightarrow>
        extract_flights_from_dom pg now org dst = ([], selectors))"
proof (intro conjI allI impI)
  fix k
  assume k: "k < length selectors"
    and e: "ends_search pg org dst now k \<and> (\<forall>j < k. \<not> ends_search pg org dst now j)"
  from e have 2: "completes pg (selectors ! k)
      \<and> [] @ held pg org dst now (take (Suc k) selectors) \<noteq> []"
    by (simp add: ends_search_def)
  from e have 3: "\<forall>j < k. \<not> (completes pg (selectors ! j)
      \<and> [] @ held pg org dst now (take (Suc j) selectors) \<noteq> [])"
    by (simp add: ends_search_def)
  from scan_selectors_ended [OF k 2 3, of "[]"]
  show "extract_flights_from_dom pg now org dst
      = (held pg org dst now (take (Suc k) selectors), take (Suc k) selectors)"
    by (simp add: extract_flights_from_dom_def)
next
  assume "\<forall>k < length selectors. \<not> ends_search pg org dst now k"
  then have "\<forall>k < length selectors. \<not> (completes pg (selectors ! k)
      \<and> [] @ held pg org dst now (take (Suc k) selectors) \<noteq> [])"
    by (simp add: ends_search_def)
  from scan_selectors_exhausted [OF this, of "[]"]
  show "extract_flights_from_dom pg now org dst = ([], selectors)"
    by (simp add: extract_flights_from_dom_def)
qed

theorem selector_loop_ends_witness:
  "\<not> ends_search carry_page (u ''Pune'') (u ''Goa'') (u ''T'') 0
   \<and> \<not> ends_search carry_page (u ''Pune'') (u ''Goa'') (u ''T'') 1
   \<and> \<not> ends_search carry_page (u ''Pune'') (u ''Goa'') (u ''T'') 2
   \<and> ends_search carry_page (u ''Pune'') (u ''Goa'') (u ''T'') 3
   \<and> kept_from carry_page (u ''Pune'') (u ''Goa'') (u ''T'') (selectors ! 3) = []
   \<and> extract_flights_from_dom carry_page (u ''T'') (u ''Pune'') (u ''Goa'')
     = ([build_flight (u ''Pune'') (u ''Goa'') (u ''T'') (u ''IndiGo 06:30'')], take 4 selectors)
   \<and> (\<exists>j < length selectors. ends_search loading_page (u ''Pune'') (u ''Goa'') (u ''T'') j)
   \<and> extract_flights_from_dom empty_page (u ''T'') (u ''Pune'') (u ''Goa'') = ([], selectors)"
proof -
  have n: "\<not> ends_search carry_page (u ''Pune'') (u ''Goa'') (u ''T'') 0"
    "\<not> ends_search carry_page (u ''Pune'') (u ''Goa'') (u ''T'') 1"
    "\<not> ends_search carry_page (u ''Pune'') (u ''Goa'') (u ''T'') 2"
    by code_simp+
  have y: "ends_search carry_page (u ''Pune'') (u ''Goa'') (u ''T'') 3"
    by code_simp
  have k: "kept_from carry_page (u ''Pune'') (u ''Goa'') (u ''T'') (selectors ! 3) = []"
    by code_simp
  have h: "held carry_page (u ''Pune'') (u ''Goa'') (u ''T'') (take (Suc 3) selectors)
           = [build_flight (u ''Pune'') (u ''Goa'') (u ''T'') (u ''IndiGo 06:30'')]"
    by code_simp
  have five: "length selectors = 5" by (simp add: selectors_def)
  have before: "\<forall>j < 3. \<not> ends_search carry_page (u ''Pune'') (u ''Goa'') (u ''T'') j"
  proof (intro allI impI)
    fix j :: nat assume "j < 3"
    then have "j = 0 \<or> j = 1 \<or> j = 2" by arith
    with n show "\<not> ends_search carry_page (u ''Pune'') (u ''Goa'') (u ''T'') j" by auto
  qed
  have l: "ends_search loading_page (u ''Pune'') (u ''Goa'') (u ''T'') 1" by code_simp
  have none: "\<forall>j < length selectors. \<not> ends_search empty_page (u ''Pune'') (u ''Goa'') (u ''T'') j"
    by (simp add: ends_search_def completes_def empty_page_def)
  have "extract_flights_from_dom carry_page (u ''T'') (u ''Pune'') (u ''Goa'')
     = ([build_flight (u ''Pune'') (u ''Goa'') (u ''T'') (u ''IndiGo 06:30'')], take 4 selectors)"
  proof -
    have "3 < length selectors" using five by simp
    with selector_loop_ends [of carry_page "u ''Pune''" "u ''Goa''" "u ''T''"] y before
    have "extract_flights_from_dom carry_page (u ''T'') (u ''Pune'') (u ''Goa'')
      = (held carry_page (u ''Pune'') (u ''Goa'') (u ''T'') (take (Suc 3) selectors),
         take (Suc 3) selectors)"
      by blast
    with h show ?thesis by simp
  qed
  moreover have "extract_flights_from_dom empty_page (u ''T'') (u ''Pune'') (u ''Goa'') = ([], selectors)"
    using selector_loop_ends [of empty_page "u ''Pune''" "u ''Goa''" "u ''T''"] none by blast
  moreover have "\<exists>j < length selectors. ends_search loading_page (u ''Pune'') (u ''Goa'') (u ''T'') j"
    using l five by (intro exI [of _ 1]) simp
  ultimately show ?thesis using n y k by blast
qed


end
